theory Spec2Isabelle
  imports Complex_Main "HOL-Library.Multiset" "HOL-Library.Product_Lexorder"
begin

section \<open>Data model\<close>

text \<open>
  Documents of the store. An ObjectId is modelled as a natural number; the generator of
  the store never hands out the same id twice, which the database state records in the
  counter \<open>next_oid\<close>. Timestamps (\<open>timestamps: true\<close> in every schema) are
  natural numbers read from a clock that each operation receives as \<open>now\<close>.
  A JavaScript \<open>Number\<close> that only ever holds a count (\<open>viewCount\<close>) is an
  unbounded integer: the model is exact below \<open>2 ^ 53\<close>.
\<close>

type_synonym oid = nat
type_synonym time = nat

datatype post_status = Draft | Published | Archived

text \<open>\<open>postSchema\<close> (models/Post.js).\<close>

record post =
  post_id :: oid
  title :: string
  content :: string
  excerpt :: "string option"
  post_author :: oid
  post_category :: oid
  tags :: "string list"
  featuredImage :: string
  status :: post_status
  viewCount :: int
  isFeatured :: bool
  post_createdAt :: time
  post_updatedAt :: time

text \<open>\<open>commentSchema\<close> (models/Comment.js); \<open>parentComment\<close> is \<open>None\<close> for \<open>null\<close>.\<close>

record comment =
  comment_id :: oid
  comment_text :: string
  comment_post :: oid
  comment_author :: oid
  parentComment :: "oid option"
  replies :: "oid list"
  likes :: "oid list"
  isApproved :: bool
  isEdited :: bool
  comment_createdAt :: time
  comment_updatedAt :: time

text \<open>\<open>categorySchema\<close> (models/Category.js).\<close>

record category =
  category_id :: oid
  category_name :: string
  description :: "string option"
  slug :: "string option"
  isActive :: bool

text \<open>
  The fields of a user that the handlers under study read (models/User.js is not among
  the sources). \<open>user_role\<close> is the name of the role document that \<open>role\<close>
  references, \<open>None\<close> when that document is missing.
\<close>

datatype role_name = RoleUser | RoleAdmin

record user =
  user_id :: oid
  user_name :: string
  email :: string
  user_role :: "role_name option"
  user_createdAt :: time

record db =
  posts :: "post list"
  comments :: "comment list"
  categories :: "category list"
  users :: "user list"
  next_oid :: oid

text \<open>
  The principal that the authentication middleware attaches to the request as
  \<open>req.user\<close>: its id and the name of its role (models/Role.js: \<open>user\<close> or \<open>admin\<close>).
\<close>

record principal =
  uid :: oid
  role :: role_name

text \<open>The failure classes of the response envelope, with their status codes.\<close>

datatype failure = BadRequest | Forbidden | NotFound | ServerError

fun status_code :: "failure \<Rightarrow> nat" where
  "status_code BadRequest = 400"
| "status_code Forbidden = 403"
| "status_code NotFound = 404"
| "status_code ServerError = 500"

section \<open>Store operations\<close>

text \<open>
  A collection is the list of its documents in insertion order. The store keeps \<open>_id\<close>
  unique within a collection, so an update or a removal by \<open>_id\<close> touches at most one
  document.
\<close>

definition findPostById :: "oid \<Rightarrow> db \<Rightarrow> post option" where
  "findPostById i d = find (\<lambda>p. post_id p = i) (posts d)"

definition findCommentById :: "oid \<Rightarrow> db \<Rightarrow> comment option" where
  "findCommentById i d = find (\<lambda>c. comment_id c = i) (comments d)"

text \<open>\<open>doc.save()\<close> on a loaded document writes it back under its \<open>_id\<close>.\<close>

definition savePost :: "post \<Rightarrow> db \<Rightarrow> db" where
  "savePost p d = d\<lparr>posts := map (\<lambda>x. if post_id x = post_id p then p else x) (posts d)\<rparr>"

definition saveComment :: "comment \<Rightarrow> db \<Rightarrow> db" where
  "saveComment c d =
     d\<lparr>comments := map (\<lambda>x. if comment_id x = comment_id c then c else x) (comments d)\<rparr>"

text \<open>\<open>Comment.findByIdAndUpdate(i, {$push: {replies: r}})\<close>: append to the array.\<close>

definition pushReply :: "oid \<Rightarrow> oid \<Rightarrow> time \<Rightarrow> db \<Rightarrow> db" where
  "pushReply i r now d =
     d\<lparr>comments := map (\<lambda>x. if comment_id x = i
                               then x\<lparr>replies := replies x @ [r], comment_updatedAt := now\<rparr>
                               else x) (comments d)\<rparr>"

text \<open>
  \<open>Comment.findByIdAndUpdate(i, {$pull: {replies: r}})\<close>: remove every occurrence of
  \<open>r\<close> from the array of document \<open>i\<close>; nothing happens when \<open>i\<close> is absent.
\<close>

definition pullReply :: "oid \<Rightarrow> oid \<Rightarrow> time \<Rightarrow> db \<Rightarrow> db" where
  "pullReply i r now d =
     d\<lparr>comments := map (\<lambda>x. if comment_id x = i
                               then x\<lparr>replies := filter (\<lambda>y. y \<noteq> r) (replies x),
                                      comment_updatedAt := now\<rparr>
                               else x) (comments d)\<rparr>"

text \<open>\<open>doc.remove()\<close>: delete the document with this \<open>_id\<close>.\<close>

definition removeComment :: "comment \<Rightarrow> db \<Rightarrow> db" where
  "removeComment c d = d\<lparr>comments := filter (\<lambda>x. comment_id x \<noteq> comment_id c) (comments d)\<rparr>"

section \<open>Comment handlers (routes/comments.js)\<close>

subsection \<open>POST /api/comments/:id/like\<close>

record like_result =
  lr_likes :: nat
  lr_isLiked :: bool

definition like_comment :: "principal \<Rightarrow> oid \<Rightarrow> time \<Rightarrow> db \<Rightarrow> (failure + like_result) \<times> db" where
  "like_comment pr cid now d =
     (case findCommentById cid d of
        None \<Rightarrow> (Inl NotFound, d)
      | Some c \<Rightarrow>
          let userLiked = (uid pr \<in> set (likes c));
              likes' = (if userLiked then filter (\<lambda>i. i \<noteq> uid pr) (likes c)
                        else likes c @ [uid pr]);
              c' = c\<lparr>likes := likes', comment_updatedAt := now\<rparr>
          in (Inr \<lparr>lr_likes = length likes', lr_isLiked = \<not> userLiked\<rparr>, saveComment c' d))"

text \<open>The likes list of a stored comment, empty when the comment is absent.\<close>

definition likes_of :: "oid \<Rightarrow> db \<Rightarrow> oid list" where
  "likes_of cid d = (case findCommentById cid d of None \<Rightarrow> [] | Some c \<Rightarrow> likes c)"

subsection \<open>Guards (middleware/auth.js)\<close>

text \<open>
  Modelled from the spec: the ownership check of middleware/auth.js (\<open>isAuthor\<close>),
  which is not among the sources. The spec (4.2): load the resource of the given type by
  id; answer "not found" when it is absent; allow when its author reference equals the
  principal id or the principal's role is admin, and answer "forbidden" otherwise; the
  loaded resource is attached to the request as \<open>req.resource\<close>. The authentication
  step \<open>protect\<close> is represented by the principal that every private handler receives.
\<close>

definition isAuthor ::
  "(oid \<Rightarrow> db \<Rightarrow> 'r option) \<Rightarrow> ('r \<Rightarrow> oid) \<Rightarrow> principal \<Rightarrow> oid \<Rightarrow> db \<Rightarrow> failure + 'r" where
  "isAuthor findById author pr i d =
     (case findById i d of
        None \<Rightarrow> Inl NotFound
      | Some r \<Rightarrow> if author r = uid pr \<or> role pr = RoleAdmin then Inr r else Inl Forbidden)"

text \<open>
  Modelled from the spec: the role check of middleware/auth.js (\<open>authorize\<close>,
  \<open>isAdmin\<close>), which is not among the sources. The spec (4.2): the principal's role
  name must be in the allowed set; otherwise the answer is "forbidden".
\<close>

definition authorize :: "role_name list \<Rightarrow> principal \<Rightarrow> failure + unit" where
  "authorize allowed pr = (if role pr \<in> set allowed then Inr () else Inl Forbidden)"

subsection \<open>Request sanitising (express-validator)\<close>

text \<open>\<open>.trim()\<close> strips white space at both ends of a body field.\<close>

definition is_space :: "char \<Rightarrow> bool" where
  "is_space c = (c \<in> set [CHR '' '', CHR 0x09, CHR 0x0A, CHR 0x0B, CHR 0x0C, CHR 0x0D])"

definition trim :: "string \<Rightarrow> string" where
  "trim s = rev (dropWhile is_space (rev (dropWhile is_space s)))"

subsection \<open>POST /api/comments\<close>

text \<open>
  The body of the request: \<open>text\<close> (the empty string when the field is missing),
  \<open>post\<close> and \<open>parentComment\<close> (\<open>None\<close> for a missing, null or empty value).
\<close>

record comment_body =
  b_text :: string
  b_post :: "oid option"
  b_parentComment :: "oid option"

definition create_comment ::
  "principal \<Rightarrow> comment_body \<Rightarrow> time \<Rightarrow> db \<Rightarrow> (failure + comment) \<times> db" where
  "create_comment pr body now d =
     (let txt = trim (b_text body) in
      if length txt < 1 \<or> 1000 < length txt then (Inl BadRequest, d)
      else case b_post body of
        None \<Rightarrow> (Inl BadRequest, d)
      | Some postId \<Rightarrow>
         (case findPostById postId d of
            None \<Rightarrow> (Inl NotFound, d)
          | Some post \<Rightarrow>
             (case b_parentComment body of
                None \<Rightarrow>
                  let c = \<lparr>comment_id = next_oid d, comment_text = txt, comment_post = postId,
                           comment_author = uid pr, parentComment = None, replies = [],
                           likes = [], isApproved = True, isEdited = False,
                           comment_createdAt = now, comment_updatedAt = now\<rparr>
                  in (Inr c, d\<lparr>comments := comments d @ [c], next_oid := Suc (next_oid d)\<rparr>)
              | Some parent \<Rightarrow>
                 (case findCommentById parent d of
                    None \<Rightarrow> (Inl NotFound, d)
                  | Some parentCommentDoc \<Rightarrow>
                      let c = \<lparr>comment_id = next_oid d, comment_text = txt, comment_post = postId,
                               comment_author = uid pr, parentComment = Some parent, replies = [],
                               likes = [], isApproved = True, isEdited = False,
                               comment_createdAt = now, comment_updatedAt = now\<rparr>
                      in (Inr c,
                          pushReply parent (comment_id c) now
                            (d\<lparr>comments := comments d @ [c], next_oid := Suc (next_oid d)\<rparr>))))))"

subsection \<open>PUT /api/comments/:id\<close>

text \<open>
  The handler proper works on \<open>req.resource\<close>; the route runs the ownership guard before
  the validators and the handler. \<open>save()\<close> writes nothing, and leaves \<open>updatedAt\<close>
  alone, when no field changed.
\<close>

definition update_comment_handler :: "comment \<Rightarrow> string \<Rightarrow> time \<Rightarrow> db \<Rightarrow> (failure + comment) \<times> db" where
  "update_comment_handler c txt0 now d =
     (let txt = trim txt0 in
      if length txt < 1 \<or> 1000 < length txt then (Inl BadRequest, d)
      else let c1 = c\<lparr>comment_text := txt, isEdited := True\<rparr>;
               c2 = (if c1 = c then c else c1\<lparr>comment_updatedAt := now\<rparr>)
           in (Inr c2, saveComment c2 d))"

definition update_comment ::
  "principal \<Rightarrow> oid \<Rightarrow> string \<Rightarrow> time \<Rightarrow> db \<Rightarrow> (failure + comment) \<times> db" where
  "update_comment pr cid txt now d =
     (case isAuthor findCommentById comment_author pr cid d of
        Inl e \<Rightarrow> (Inl e, d)
      | Inr c \<Rightarrow> update_comment_handler c txt now d)"

subsection \<open>DELETE /api/comments/:id\<close>

definition delete_comment_handler :: "comment \<Rightarrow> time \<Rightarrow> db \<Rightarrow> (failure + unit) \<times> db" where
  "delete_comment_handler c now d =
     (let d1 = (case parentComment c of
                  Some parent \<Rightarrow> pullReply parent (comment_id c) now d
                | None \<Rightarrow> d)
      in (Inr (), removeComment c d1))"

definition delete_comment :: "principal \<Rightarrow> oid \<Rightarrow> time \<Rightarrow> db \<Rightarrow> (failure + unit) \<times> db" where
  "delete_comment pr cid now d =
     (case isAuthor findCommentById comment_author pr cid d of
        Inl e \<Rightarrow> (Inl e, d)
      | Inr c \<Rightarrow> delete_comment_handler c now d)"

subsection \<open>PATCH /api/comments/:id/approve\<close>

definition approve_comment_handler :: "oid \<Rightarrow> bool \<Rightarrow> time \<Rightarrow> db \<Rightarrow> (failure + comment) \<times> db" where
  "approve_comment_handler cid approved now d =
     (case findCommentById cid d of
        None \<Rightarrow> (Inl NotFound, d)
      | Some c \<Rightarrow>
          let c1 = c\<lparr>isApproved := approved\<rparr>;
              c2 = (if c1 = c then c else c1\<lparr>comment_updatedAt := now\<rparr>)
          in (Inr c2, saveComment c2 d))"

definition approve_comment ::
  "principal \<Rightarrow> oid \<Rightarrow> bool \<Rightarrow> time \<Rightarrow> db \<Rightarrow> (failure + comment) \<times> db" where
  "approve_comment pr cid approved now d =
     (case authorize [RoleAdmin] pr of
        Inl e \<Rightarrow> (Inl e, d)
      | Inr _ \<Rightarrow> approve_comment_handler cid approved now d)"

subsection \<open>Sequences of comment operations\<close>

datatype comment_request =
    CreateComment principal comment_body time
  | UpdateComment principal oid string time
  | DeleteComment principal oid time
  | LikeComment principal oid time
  | ApproveComment principal oid bool time

fun comment_step :: "comment_request \<Rightarrow> db \<Rightarrow> db" where
  "comment_step (CreateComment pr body now) d = snd (create_comment pr body now d)"
| "comment_step (UpdateComment pr cid txt now) d = snd (update_comment pr cid txt now d)"
| "comment_step (DeleteComment pr cid now) d = snd (delete_comment pr cid now d)"
| "comment_step (LikeComment pr cid now) d = snd (like_comment pr cid now d)"
| "comment_step (ApproveComment pr cid approved now) d = snd (approve_comment pr cid approved now d)"

fun comment_run :: "comment_request list \<Rightarrow> db \<Rightarrow> db" where
  "comment_run [] d = d"
| "comment_run (r # rs) d = comment_run rs (comment_step r d)"

text \<open>
  \<open>ancestor d i a\<close>: following \<open>parentComment\<close> references from the stored comment
  \<open>i\<close> reaches the id \<open>a\<close> in one or more steps.
\<close>

inductive ancestor :: "db \<Rightarrow> oid \<Rightarrow> oid \<Rightarrow> bool" for d :: db where
  parent: "c \<in> set (comments d) \<Longrightarrow> parentComment c = Some p \<Longrightarrow> ancestor d (comment_id c) p"
| grand: "c \<in> set (comments d) \<Longrightarrow> parentComment c = Some p \<Longrightarrow> ancestor d p a
          \<Longrightarrow> ancestor d (comment_id c) a"

code_pred ancestor .

text \<open>
  The states the comment operations start from: every stored comment is top-level (the
  seeder inserts comments without a parent) and carries an id the generator has already
  handed out.
\<close>

definition initial_comments :: "db \<Rightarrow> bool" where
  "initial_comments d =
     (\<forall>c \<in> set (comments d). parentComment c = None \<and> comment_id c < next_oid d)"

text \<open>
  The ranking that the id generator induces: every stored comment has an id below the
  counter, and a parent reference points to a smaller id.
\<close>

definition ranked :: "db \<Rightarrow> bool" where
  "ranked d =
     (\<forall>c \<in> set (comments d). comment_id c < next_oid d
         \<and> (\<forall>p. parentComment c = Some p \<longrightarrow> p < comment_id c))"

section \<open>Category slug (models/Category.js)\<close>

text \<open>
  A string is a list of 8-bit characters. \<open>toLowerCase\<close> maps the letters \<open>A\<close> to
  \<open>Z\<close> to \<open>a\<close> to \<open>z\<close> and leaves every other character as it is; a character
  outside ASCII is one or more bytes above 127, which stay outside \<open>[a-z0-9]\<close> as their
  lower-case forms do in JavaScript (the two code points U+0130 and U+212A, whose
  lower-case forms contain an ASCII letter, are not covered by the model).
\<close>

definition is_upper :: "char \<Rightarrow> bool" where
  "is_upper c = (65 \<le> (of_char c :: nat) \<and> (of_char c :: nat) \<le> 90)"

definition is_lower :: "char \<Rightarrow> bool" where
  "is_lower c = (97 \<le> (of_char c :: nat) \<and> (of_char c :: nat) \<le> 122)"

definition is_digit :: "char \<Rightarrow> bool" where
  "is_digit c = (48 \<le> (of_char c :: nat) \<and> (of_char c :: nat) \<le> 57)"

definition toLowerCase_char :: "char \<Rightarrow> char" where
  "toLowerCase_char c = (if is_upper c then char_of ((of_char c :: nat) + 32) else c)"

definition toLowerCase :: "string \<Rightarrow> string" where
  "toLowerCase s = map toLowerCase_char s"

text \<open>The character class \<open>[a-z0-9]\<close> of the first regular expression.\<close>

definition in_az09 :: "char \<Rightarrow> bool" where
  "in_az09 c = (is_lower c \<or> is_digit c)"

text \<open>
  \<open>.replace(/[^a-z0-9]+/g, '-')\<close>: scanning from the left, each match is a longest
  run of characters outside the class and is replaced by one hyphen.
\<close>

function replace_non_az09 :: "string \<Rightarrow> string" where
  "replace_non_az09 [] = []"
| "replace_non_az09 (c # cs) =
     (if in_az09 c then c # replace_non_az09 cs
      else CHR ''-'' # replace_non_az09 (dropWhile (\<lambda>x. \<not> in_az09 x) cs))"
  by pat_completeness auto
termination
  by (relation "measure length") (auto simp: length_dropWhile_le less_Suc_eq_le)

text \<open>
  \<open>.replace(/(^-|-$)/g, '')\<close>: one hyphen at the very start is removed, and one hyphen
  at the very end of what remains to be scanned.
\<close>

definition replace_edge_hyphens :: "string \<Rightarrow> string" where
  "replace_edge_hyphens s =
     (let s1 = (case s of [] \<Rightarrow> [] | c # r \<Rightarrow> if c = CHR ''-'' then r else s)
      in if s1 \<noteq> [] \<and> last s1 = CHR ''-'' then butlast s1 else s1)"

definition slugify :: "string \<Rightarrow> string" where
  "slugify name = replace_edge_hyphens (replace_non_az09 (toLowerCase name))"

text \<open>
  The \<open>pre('save')\<close> hook. \<open>isModified('name')\<close> is the flag \<open>nameModified\<close>; the
  schema option \<open>lowercase: true\<close> of \<open>slug\<close> lower-cases the assigned value.
\<close>

definition category_pre_save :: "bool \<Rightarrow> category \<Rightarrow> category" where
  "category_pre_save nameModified c =
     (if \<not> nameModified then c
      else c\<lparr>slug := Some (toLowerCase (slugify (category_name c)))\<rparr>)"

text \<open>
  \<open>isModified('name')\<close> when a document is saved: a new document has every path it
  was given marked as modified; a loaded document has \<open>name\<close> marked when it was
  assigned a value different from the stored one.
\<close>

definition isModified_name :: "category option \<Rightarrow> category \<Rightarrow> bool" where
  "isModified_name stored c =
     (case stored of None \<Rightarrow> True | Some old \<Rightarrow> category_name old \<noteq> category_name c)"

definition save_category :: "category option \<Rightarrow> category \<Rightarrow> category" where
  "save_category stored c = category_pre_save (isModified_name stored c) c"

subsection \<open>The slug as the specification words it\<close>

text \<open>
  The name lower-cased, every maximal run of non-alphanumeric characters collapsed to a
  single hyphen, leading and trailing hyphens stripped.
\<close>

definition is_alphanumeric :: "char \<Rightarrow> bool" where
  "is_alphanumeric c = (is_upper c \<or> is_lower c \<or> is_digit c)"

function maximal_runs :: "('a \<Rightarrow> bool) \<Rightarrow> 'a list \<Rightarrow> 'a list list" where
  "maximal_runs P [] = []"
| "maximal_runs P (x # xs) =
     (x # takeWhile (\<lambda>y. P y = P x) xs) # maximal_runs P (dropWhile (\<lambda>y. P y = P x) xs)"
  by pat_completeness auto
termination
  by (relation "measure (\<lambda>(P, xs). length xs)") (auto simp: length_dropWhile_le less_Suc_eq_le)

definition collapse_run :: "string \<Rightarrow> string" where
  "collapse_run r = (case r of [] \<Rightarrow> [] | c # _ \<Rightarrow> if is_alphanumeric c then r else ''-'')"

definition strip_hyphens :: "string \<Rightarrow> string" where
  "strip_hyphens s =
     rev (dropWhile (\<lambda>c. c = CHR ''-'') (rev (dropWhile (\<lambda>c. c = CHR ''-'') s)))"

definition spec_slug :: "string \<Rightarrow> string" where
  "spec_slug name =
     strip_hyphens (concat (map collapse_run (maximal_runs is_alphanumeric (toLowerCase name))))"

section \<open>Route dispatch of the posts router (routes/posts.js)\<close>

text \<open>
  The router tries its routes in the order of registration and runs the handler of the
  first one whose method and path pattern match; no handler of this router passes the
  request on. A pattern is a list of segments, a literal or a named parameter; a request
  path is the list of its non-empty segments below the mount point. A parameter matches
  any one segment; a literal matches regardless of letter case (the router is created
  with the default options).
\<close>

datatype http_method = GET | POST | PUT | DELETE | PATCH

datatype segment = Lit string | Param string

datatype posts_handler =
  ListPosts | GetPost | CreatePost | UpdatePost | DeletePost | PostsByCategory | TrendingPosts

type_synonym route = "http_method \<times> segment list \<times> posts_handler"

definition posts_router :: "route list" where
  "posts_router =
     [(GET, [], ListPosts),
      (GET, [Param ''id''], GetPost),
      (POST, [], CreatePost),
      (PUT, [Param ''id''], UpdatePost),
      (DELETE, [Param ''id''], DeletePost),
      (GET, [Lit ''category'', Param ''categoryId''], PostsByCategory),
      (GET, [Lit ''trending''], TrendingPosts)]"

fun match_path :: "segment list \<Rightarrow> string list \<Rightarrow> (string \<times> string) list option" where
  "match_path [] [] = Some []"
| "match_path (Lit s # ps) (x # xs) =
     (if toLowerCase x = toLowerCase s then match_path ps xs else None)"
| "match_path (Param n # ps) (x # xs) =
     (if x \<noteq> [] then map_option (\<lambda>bs. (n, x) # bs) (match_path ps xs) else None)"
| "match_path _ _ = None"

fun dispatch ::
  "route list \<Rightarrow> http_method \<Rightarrow> string list \<Rightarrow> (posts_handler \<times> (string \<times> string) list) option" where
  "dispatch [] m path = None"
| "dispatch ((m', pat, h) # rs) m path =
     (if m' = m
      then (case match_path pat path of
              Some params \<Rightarrow> Some (h, params)
            | None \<Rightarrow> dispatch rs m path)
      else dispatch rs m path)"

section \<open>Post handlers (routes/posts.js)\<close>

subsection \<open>Query parameters\<close>




text \<open>
  A string that is used where the schema expects an ObjectId is cast: 24 hexadecimal
  digits denote the id with those 12 bytes, any string of 12 characters denotes the id
  whose 12 bytes are its characters, and anything else makes the query fail with a
  \<open>CastError\<close>, which every handler turns into a 500 response. An id is the number
  that its 12 bytes spell, most significant byte first.
\<close>

definition hex_value :: "char \<Rightarrow> nat option" where
  "hex_value c =
     (let n = (of_char c :: nat) in
      if 48 \<le> n \<and> n \<le> 57 then Some (n - 48)
      else if 97 \<le> n \<and> n \<le> 102 then Some (n - 87)
      else if 65 \<le> n \<and> n \<le> 70 then Some (n - 55)
      else None)"

definition cast_oid :: "string \<Rightarrow> oid option" where
  "cast_oid s =
     (if length s = 24 \<and> list_all (\<lambda>c. hex_value c \<noteq> None) s
      then Some (foldl (\<lambda>a c. a * 16 + the (hex_value c)) 0 s)
      else if length s = 12 then Some (foldl (\<lambda>a c. a * 256 + of_char c) 0 s)
      else None)"

subsection \<open>Pagination, as every listing handler writes it\<close>





subsection \<open>Populated posts\<close>

text \<open>
  A post with \<open>author\<close>, \<open>category\<close> and the virtual \<open>comments\<close> (approved ones only)
  populated; the JSON of a response is a projection of it. The response mapping reads
  \<open>post.author._id\<close> and \<open>post.category._id\<close>, which throws when the referenced
  document is missing.
\<close>

record populated_post =
  pp_post :: post
  pp_author :: user
  pp_category :: category
  pp_comments :: "comment list"

definition populate_post :: "db \<Rightarrow> post \<Rightarrow> populated_post option" where
  "populate_post d p =
     (case find (\<lambda>u. user_id u = post_author p) (users d) of
        None \<Rightarrow> None
      | Some u \<Rightarrow>
         (case find (\<lambda>c. category_id c = post_category p) (categories d) of
            None \<Rightarrow> None
          | Some c \<Rightarrow>
              Some \<lparr>pp_post = p, pp_author = u, pp_category = c,
                    pp_comments = filter (\<lambda>x. comment_post x = post_id p \<and> isApproved x)
                                    (comments d)\<rparr>))"

subsection \<open>The order of a sorted query\<close>





subsection \<open>GET /api/posts\<close>






subsection \<open>GET /api/posts/category/:categoryId\<close>



subsection \<open>GET /api/posts/:id\<close>

text \<open>
  The post is loaded and populated, \<open>viewCount\<close> is incremented and saved (which also
  sets \<open>updatedAt\<close>), then the response is built.
\<close>

definition get_post :: "oid \<Rightarrow> time \<Rightarrow> db \<Rightarrow> (failure + populated_post) \<times> db" where
  "get_post i now d =
     (case findPostById i d of
        None \<Rightarrow> (Inl NotFound, d)
      | Some p \<Rightarrow>
          let p' = p\<lparr>viewCount := viewCount p + 1, post_updatedAt := now\<rparr>;
              d' = savePost p' d
          in (case populate_post d p' of
                None \<Rightarrow> (Inl ServerError, d')
              | Some v \<Rightarrow> (Inr v, d')))"

subsection \<open>GET /api/posts/trending\<close>

text \<open>
  The aggregation pipeline: \<open>$match\<close> on the status, \<open>$lookup\<close> of all comments of
  the post (approved or not), \<open>$addFields\<close> with their number, \<open>$sort\<close> on
  \<open>{commentsCount: -1, viewCount: -1}\<close>, \<open>$limit: 5\<close>. The looked-up author and
  category are the first match or absent. The sort is taken to be stable.
\<close>

record trending_entry =
  te_post :: post
  te_commentsCount :: nat
  te_author :: "user option"
  te_category :: "category option"

definition trending_lookup :: "db \<Rightarrow> post \<Rightarrow> trending_entry" where
  "trending_lookup d p =
     \<lparr>te_post = p,
      te_commentsCount = length (filter (\<lambda>c. comment_post c = post_id p) (comments d)),
      te_author = find (\<lambda>u. user_id u = post_author p) (users d),
      te_category = find (\<lambda>c. category_id c = post_category p) (categories d)\<rparr>"

definition trending_key :: "trending_entry \<Rightarrow> int \<times> int" where
  "trending_key e = (- int (te_commentsCount e), - viewCount (te_post e))"

definition trending_posts :: "db \<Rightarrow> (failure + trending_entry list) \<times> db" where
  "trending_posts d =
     (Inr (take 5 (sort_key trending_key
                    (map (trending_lookup d) (filter (\<lambda>p. status p = Published) (posts d))))), d)"

subsection \<open>PUT /api/posts/:id\<close>

text \<open>
  The body of the request; \<open>None\<close> is a field that is absent (\<open>undefined\<close>).
\<close>

record post_body =
  pb_title :: "string option"
  pb_content :: "string option"
  pb_excerpt :: "string option"
  pb_category :: "string option"
  pb_tags :: "string list option"
  pb_featuredImage :: "string option"
  pb_status :: "string option"

definition parse_status :: "string \<Rightarrow> post_status option" where
  "parse_status s =
     (if s = ''draft'' then Some Draft
      else if s = ''published'' then Some Published
      else if s = ''archived'' then Some Archived
      else None)"

text \<open>
  \<open>Category.findOne({$or: [{_id: v}, {name: {$regex: new RegExp(`^${v}$`, 'i')}}]})\<close>
  for a truthy \<open>category\<close> field; a category that is not found is a 400.
\<close>

definition body_category :: "(string \<Rightarrow> string \<Rightarrow> bool) \<Rightarrow> string option \<Rightarrow> db \<Rightarrow> failure + oid option" where
  "body_category rx v d =
     (case v of
        None \<Rightarrow> Inr None
      | Some s \<Rightarrow>
          if s = [] then Inr None
          else (case cast_oid s of
                  None \<Rightarrow> Inl ServerError
                | Some i \<Rightarrow>
                   (case find (\<lambda>c. category_id c = i \<or> rx (''^'' @ s @ ''$'') (category_name c))
                           (categories d) of
                      None \<Rightarrow> Inl BadRequest
                    | Some c \<Rightarrow> Inr (Some (category_id c)))))"

text \<open>The assignments of the handler to the loaded document, in the order of the source.\<close>

definition assign_post_fields :: "post_body \<Rightarrow> oid option \<Rightarrow> post \<Rightarrow> post option" where
  "assign_post_fields body cat p0 =
     (let title' = map_option trim (pb_title body);
          content' = map_option trim (pb_content body);
          p1 = (case cat of Some i \<Rightarrow> p0\<lparr>post_category := i\<rparr> | None \<Rightarrow> p0);
          p2 = (case title' of Some t \<Rightarrow> if t \<noteq> [] then p1\<lparr>title := trim t\<rparr> else p1 | None \<Rightarrow> p1);
          p3 = (case content' of Some c \<Rightarrow> if c \<noteq> [] then p2\<lparr>content := c\<rparr> else p2 | None \<Rightarrow> p2);
          p4 = (case pb_excerpt body of Some e \<Rightarrow> p3\<lparr>excerpt := Some e\<rparr> | None \<Rightarrow> p3);
          p5 = (case pb_tags body of Some ts \<Rightarrow> p4\<lparr>tags := map trim ts\<rparr> | None \<Rightarrow> p4);
          p6 = (case pb_featuredImage body of Some f \<Rightarrow> p5\<lparr>featuredImage := f\<rparr> | None \<Rightarrow> p5)
      in case pb_status body of
           None \<Rightarrow> Some p6
         | Some s \<Rightarrow> if s = [] then Some p6
                     else map_option (\<lambda>st. p6\<lparr>status := st\<rparr>) (parse_status s))"

text \<open>
  The handler proper, on \<open>req.resource\<close>. The validators answer 400; \<open>save()\<close> validates
  the schema (an excerpt of more than 200 characters or an unknown status makes it throw,
  a 500 with nothing written) and sets \<open>updatedAt\<close> when a field changed.
\<close>

definition update_post_handler ::
  "(string \<Rightarrow> string \<Rightarrow> bool) \<Rightarrow> post \<Rightarrow> post_body \<Rightarrow> time \<Rightarrow> db \<Rightarrow> (failure + populated_post) \<times> db" where
  "update_post_handler rx p0 body now d =
     (let title' = map_option trim (pb_title body);
          content' = map_option trim (pb_content body)
      in if (case title' of Some t \<Rightarrow> length t < 5 \<or> 100 < length t | None \<Rightarrow> False)
            \<or> (case content' of Some c \<Rightarrow> length c < 10 | None \<Rightarrow> False)
         then (Inl BadRequest, d)
         else (case body_category rx (pb_category body) d of
                 Inl e \<Rightarrow> (Inl e, d)
               | Inr cat \<Rightarrow>
                  (case assign_post_fields body cat p0 of
                     None \<Rightarrow> (Inl ServerError, d)
                   | Some p1 \<Rightarrow>
                      if (case excerpt p1 of Some e \<Rightarrow> 200 < length e | None \<Rightarrow> False)
                      then (Inl ServerError, d)
                      else let p2 = (if p1 = p0 then p0 else p1\<lparr>post_updatedAt := now\<rparr>);
                               d' = savePost p2 d
                           in (case populate_post d' p2 of
                                 None \<Rightarrow> (Inl ServerError, d')
                               | Some v \<Rightarrow> (Inr v, d')))))"

text \<open>The route: \<open>protect\<close>, \<open>isAuthor(Post)\<close>, the validators, the handler.\<close>

definition update_post ::
  "(string \<Rightarrow> string \<Rightarrow> bool) \<Rightarrow> principal \<Rightarrow> oid \<Rightarrow> post_body \<Rightarrow> time \<Rightarrow> db
   \<Rightarrow> (failure + populated_post) \<times> db" where
  "update_post rx pr i body now d =
     (case isAuthor findPostById post_author pr i d of
        Inl e \<Rightarrow> (Inl e, d)
      | Inr p \<Rightarrow> update_post_handler rx p body now d)"

section \<open>User listing (routes/users.js)\<close>





section \<open>Comment listing (routes/comments.js)\<close>

subsection \<open>GET /api/comments/post/:postId\<close>





text \<open>
  The ranking as the specification words it: comment count descending, ties broken by
  view count descending.
\<close>

definition trending_before :: "trending_entry \<Rightarrow> trending_entry \<Rightarrow> bool" where
  "trending_before a b =
     (te_commentsCount b < te_commentsCount a
      \<or> (te_commentsCount a = te_commentsCount b \<and> viewCount (te_post b) \<le> viewCount (te_post a)))"

section \<open>Statements about listings\<close>







section \<open>Example states\<close>

definition like_example_comment :: comment where
  "like_example_comment =
     \<lparr>comment_id = 7, comment_text = ''nice'', comment_post = 3, comment_author = 2,
      parentComment = None, replies = [], likes = [1, 2], isApproved = True,
      isEdited = False, comment_createdAt = 0, comment_updatedAt = 0\<rparr>"

definition like_example_db :: db where
  "like_example_db =
     \<lparr>posts = [], comments = [like_example_comment], categories = [], users = [], next_oid = 8\<rparr>"

definition alice :: principal where
  "alice = \<lparr>uid = 1, role = RoleUser\<rparr>"

definition carol :: principal where
  "carol = \<lparr>uid = 5, role = RoleUser\<rparr>"

definition thread_top :: comment where
  "thread_top =
     \<lparr>comment_id = 1, comment_text = ''top'', comment_post = 0, comment_author = 1,
      parentComment = None, replies = [2], likes = [], isApproved = True,
      isEdited = False, comment_createdAt = 1, comment_updatedAt = 2\<rparr>"

definition thread_reply :: comment where
  "thread_reply =
     \<lparr>comment_id = 2, comment_text = ''reply'', comment_post = 0, comment_author = 5,
      parentComment = Some 1, replies = [3], likes = [], isApproved = True,
      isEdited = False, comment_createdAt = 2, comment_updatedAt = 3\<rparr>"

definition thread_nested :: comment where
  "thread_nested =
     \<lparr>comment_id = 3, comment_text = ''nested'', comment_post = 0, comment_author = 1,
      parentComment = Some 2, replies = [], likes = [], isApproved = True,
      isEdited = False, comment_createdAt = 3, comment_updatedAt = 3\<rparr>"

definition thread_db :: db where
  "thread_db =
     \<lparr>posts = [], comments = [thread_top, thread_reply, thread_nested],
      categories = [], users = [], next_oid = 4\<rparr>"

definition example_post :: post where
  "example_post =
     \<lparr>post_id = 0, title = ''Hello world'', content = ''A first post to comment on'',
      excerpt = None, post_author = 1, post_category = 0, tags = [], featuredImage = [],
      status = Published, viewCount = 0, isFeatured = False,
      post_createdAt = 0, post_updatedAt = 0\<rparr>"

definition fresh_db :: db where
  "fresh_db = \<lparr>posts = [example_post], comments = [], categories = [], users = [], next_oid = 1\<rparr>"

definition thread_requests :: "comment_request list" where
  "thread_requests =
     [CreateComment alice \<lparr>b_text = '' top '', b_post = Some 0, b_parentComment = None\<rparr> 1,
      CreateComment carol \<lparr>b_text = ''reply'', b_post = Some 0, b_parentComment = Some 1\<rparr> 2,
      LikeComment alice 2 3,
      UpdateComment carol 2 ''edited reply'' 4,
      DeleteComment alice 1 5]"

definition nested_request :: comment_request where
  "nested_request =
     CreateComment alice \<lparr>b_text = ''nested'', b_post = Some 0, b_parentComment = Some 2\<rparr> 3"

definition tech_category :: category where
  "tech_category =
     \<lparr>category_id = 0, category_name = ''Technology'', description = None,
      slug = Some ''technology'', isActive = True\<rparr>"

definition draft_post :: post where
  "draft_post =
     \<lparr>post_id = 1, title = ''Unfinished'', content = ''Not ready for readers yet'',
      excerpt = None, post_author = 1, post_category = 0, tags = [], featuredImage = [],
      status = Draft, viewCount = 0, isFeatured = False,
      post_createdAt = 1, post_updatedAt = 1\<rparr>"

definition author_user :: user where
  "author_user = \<lparr>user_id = 1, user_name = ''John Doe'', email = ''john@example.com'',
                   user_role = Some RoleUser, user_createdAt = 0\<rparr>"

definition blog_db :: db where
  "blog_db = \<lparr>posts = [example_post, draft_post], comments = [like_example_comment],
              categories = [tech_category], users = [author_user], next_oid = 8\<rparr>"

definition mk_post :: "oid \<Rightarrow> post_status \<Rightarrow> int \<Rightarrow> post" where
  "mk_post i st v = example_post\<lparr>post_id := i, status := st, viewCount := v\<rparr>"

definition mk_comment :: "oid \<Rightarrow> oid \<Rightarrow> comment" where
  "mk_comment i p = like_example_comment\<lparr>comment_id := i, comment_post := p\<rparr>"

definition trending_db :: db where
  "trending_db =
     \<lparr>posts = [mk_post 10 Published 4, mk_post 11 Published 9, mk_post 12 Draft 50,
               mk_post 13 Published 2, mk_post 14 Published 7, mk_post 15 Published 1,
               mk_post 16 Published 3],
      comments = [mk_comment 20 13, mk_comment 21 10, mk_comment 22 12, mk_comment 23 13,
                  mk_comment 24 11, mk_comment 25 12, mk_comment 26 12],
      categories = [tech_category], users = [author_user], next_oid = 27\<rparr>"












section \<open>Verification\<close>

subsection \<open>Store lemmas\<close>

lemma find_map_same_id:
  assumes "\<And>x. k (f x) = k x"
  shows "find (\<lambda>x. k x = i) (map f xs) = map_option f (find (\<lambda>x. k x = i) xs)"
  using assms by (induction xs) auto

lemma find_Some_id: "find (\<lambda>x. k x = i) xs = Some c \<Longrightarrow> k c = i"
  by (induction xs) (auto split: if_splits)

lemma findCommentById_save:
  "findCommentById cid d = Some c \<Longrightarrow> comment_id c' = cid \<Longrightarrow>
   findCommentById cid (saveComment c' d) = Some c'"
proof -
  assume a: "findCommentById cid d = Some c" and b: "comment_id c' = cid"
  have "find (\<lambda>x. comment_id x = cid) (map (\<lambda>x. if comment_id x = comment_id c' then c' else x) (comments d))
        = map_option (\<lambda>x. if comment_id x = comment_id c' then c' else x)
            (find (\<lambda>x. comment_id x = cid) (comments d))"
    by (rule find_map_same_id) (simp add: b)
  with a b show ?thesis
    using find_Some_id[of comment_id cid "comments d" c]
    by (simp add: findCommentById_def saveComment_def)
qed

lemma like_comment_found:
  assumes "findCommentById cid d = Some c"
  shows "like_comment pr cid now d =
     (let L = (if uid pr \<in> set (likes c) then filter (\<lambda>i. i \<noteq> uid pr) (likes c)
               else likes c @ [uid pr])
      in (Inr \<lparr>lr_likes = length L, lr_isLiked = (uid pr \<notin> set (likes c))\<rparr>,
          saveComment (c\<lparr>likes := L, comment_updatedAt := now\<rparr>) d))"
  using assms by (simp add: like_comment_def Let_def)

lemma like_comment_find:
  assumes "findCommentById cid d = Some c"
  shows "findCommentById cid (snd (like_comment pr cid now d)) =
     Some (c\<lparr>likes := (if uid pr \<in> set (likes c) then filter (\<lambda>i. i \<noteq> uid pr) (likes c)
                         else likes c @ [uid pr]),
             comment_updatedAt := now\<rparr>)"
proof -
  have "comment_id c = cid"
    using assms find_Some_id[of comment_id cid "comments d" c] by (simp add: findCommentById_def)
  then show ?thesis
    using assms by (simp add: like_comment_found Let_def findCommentById_save)
qed

lemma likes_of_like_comment:
  assumes "findCommentById cid d = Some c"
  shows "likes_of cid (snd (like_comment pr cid now d)) =
     (if uid pr \<in> set (likes_of cid d) then filter (\<lambda>i. i \<noteq> uid pr) (likes_of cid d)
      else likes_of cid d @ [uid pr])"
  using assms by (simp add: likes_of_def like_comment_find)

lemma like_comment_still_found:
  assumes "findCommentById cid d = Some c"
  shows "\<exists>c'. findCommentById cid (snd (like_comment pr cid now d)) = Some c'"
  using assms by (simp add: like_comment_find)

subsection \<open>Like toggle\<close>

lemma filter_neq_absent: "u \<notin> set L \<Longrightarrow> filter (\<lambda>i. i \<noteq> u) L = L"
  by (induction L) auto

lemma length_filter_neq_present:
  "u \<in> set L \<Longrightarrow> distinct L \<Longrightarrow> Suc (length (filter (\<lambda>i. i \<noteq> u) L)) = length L"
  by (induction L) (auto simp: filter_neq_absent)

lemma like_comment_absent:
  "findCommentById cid d = None \<Longrightarrow> like_comment pr cid now d = (Inl NotFound, d)"
  by (simp add: like_comment_def)

text \<open>
  C4, as stated, at a concrete input: the comment is liked by users 1 and 2 (in this
  order) and user 1 toggles twice. The first toggle filters 1 out, the second appends it,
  so the stored list is \<open>[2, 1]\<close> and not the original \<open>[1, 2]\<close>: two successive
  toggles do not restore the original likes list.
\<close>

theorem like_toggle_twice_counterexample:
  "likes_of 7 like_example_db = [1, 2] \<and>
   likes_of 7 (snd (like_comment alice 7 2 (snd (like_comment alice 7 1 like_example_db)))) = [2, 1]"
  by (simp add: like_example_db_def like_example_comment_def alice_def likes_of_def
      like_comment_def findCommentById_def saveComment_def Let_def)

text \<open>
  C4 (amended). For a stored comment with likes list \<open>L\<close> and a principal \<open>u\<close>:
  the toggle stores \<open>L\<close> without \<open>u\<close> when \<open>u\<close> is in \<open>L\<close> and \<open>L\<close> with \<open>u\<close>
  appended otherwise; it answers the length of the stored list and the negation of the
  prior membership; a list without duplicates stays without duplicates; starting from a
  principal who has not liked the comment, like, unlike, like answer the counts
  \<open>|L| + 1\<close>, \<open>|L|\<close>, \<open>|L| + 1\<close>, and two toggles restore \<open>L\<close> itself; starting
  from a principal who has liked it, two toggles move the principal to the end of the
  list: the set of likers is restored, and the count when \<open>L\<close> has no duplicates.
\<close>

theorem like_toggle:
  assumes found: "findCommentById cid d = Some c"
  shows "(let u = uid pr; L = likes c;
              r1 = like_comment pr cid n1 d;
              r2 = like_comment pr cid n2 (snd r1);
              r3 = like_comment pr cid n3 (snd r2)
          in likes_of cid (snd r1) = (if u \<in> set L then filter (\<lambda>i. i \<noteq> u) L else L @ [u])
           \<and> fst r1 = Inr \<lparr>lr_likes = length (likes_of cid (snd r1)), lr_isLiked = (u \<notin> set L)\<rparr>
           \<and> (distinct L \<longrightarrow> distinct (likes_of cid (snd r1)))
           \<and> (u \<notin> set L \<longrightarrow>
                 fst r1 = Inr \<lparr>lr_likes = length L + 1, lr_isLiked = True\<rparr>
               \<and> fst r2 = Inr \<lparr>lr_likes = length L, lr_isLiked = False\<rparr>
               \<and> fst r3 = Inr \<lparr>lr_likes = length L + 1, lr_isLiked = True\<rparr>
               \<and> likes_of cid (snd r2) = L)
           \<and> (u \<in> set L \<longrightarrow>
                 likes_of cid (snd r2) = filter (\<lambda>i. i \<noteq> u) L @ [u]
               \<and> set (likes_of cid (snd r2)) = set L
               \<and> (distinct L \<longrightarrow> length (likes_of cid (snd r2)) = length L)))"
proof -
  define u where "u = uid pr"
  define L where "L = likes c"
  define T where "T = (\<lambda>xs. if u \<in> set xs then filter (\<lambda>i. i \<noteq> u) xs else xs @ [u])"
  define r1 where "r1 = like_comment pr cid n1 d"
  define r2 where "r2 = like_comment pr cid n2 (snd r1)"
  define r3 where "r3 = like_comment pr cid n3 (snd r2)"
  have L0: "likes_of cid d = L"
    using found by (simp add: likes_of_def L_def)
  obtain c1 where f1: "findCommentById cid (snd r1) = Some c1"
    using like_comment_still_found[OF found] unfolding r1_def by blast
  obtain c2 where f2: "findCommentById cid (snd r2) = Some c2"
    using like_comment_still_found[OF f1] unfolding r2_def by blast
  have L1: "likes_of cid (snd r1) = T L"
    using likes_of_like_comment[OF found, of pr n1] by (simp add: r1_def T_def L0 u_def)
  have L2: "likes_of cid (snd r2) = T (T L)"
    using likes_of_like_comment[OF f1, of pr n2] by (simp add: r2_def T_def L1 u_def)
  have c1L: "likes c1 = T L" using L1 f1 by (simp add: likes_of_def)
  have c2L: "likes c2 = T (T L)" using L2 f2 by (simp add: likes_of_def)
  have R1: "fst r1 = Inr \<lparr>lr_likes = length (T L), lr_isLiked = (u \<notin> set L)\<rparr>"
    using found by (simp add: r1_def like_comment_found Let_def T_def u_def L_def)
  have R2: "fst r2 = Inr \<lparr>lr_likes = length (T (T L)), lr_isLiked = (u \<notin> set (T L))\<rparr>"
    using f1 c1L by (simp add: r2_def like_comment_found Let_def T_def u_def)
  have R3: "fst r3 = Inr \<lparr>lr_likes = length (T (T (T L))), lr_isLiked = (u \<notin> set (T (T L)))\<rparr>"
    using f2 c2L by (simp add: r3_def like_comment_found Let_def T_def u_def)
  have absent: "T (T L) = L" "T L = L @ [u]" if "u \<notin> set L"
    using that by (simp_all add: T_def filter_neq_absent)
  have present: "T (T L) = filter (\<lambda>i. i \<noteq> u) L @ [u]" if "u \<in> set L"
    using that by (simp add: T_def)
  have pset: "set (filter (\<lambda>i. i \<noteq> u) L @ [u]) = set L" if "u \<in> set L"
    using that by auto
  have plen: "length (filter (\<lambda>i. i \<noteq> u) L @ [u]) = length L" if "u \<in> set L" "distinct L"
    using that length_filter_neq_present[of u L] by simp
  have dist: "distinct (T L)" if "distinct L"
    using that by (simp add: T_def)
  show ?thesis
    unfolding Let_def
    using L1 L2 R1 R2 R3 absent present pset plen dist
    unfolding r1_def r2_def r3_def u_def L_def T_def
    by (auto simp del: filter_append)
qed

theorem like_toggle_witness:
  "findCommentById 7 like_example_db = Some like_example_comment
   \<and> distinct (likes like_example_comment)
   \<and> uid carol \<notin> set (likes like_example_comment)
   \<and> uid alice \<in> set (likes like_example_comment)
   \<and> fst (like_comment carol 7 1 like_example_db) = Inr \<lparr>lr_likes = 3, lr_isLiked = True\<rparr>
   \<and> likes_of 7 (snd (like_comment carol 7 1 like_example_db)) = [1, 2, 5]
   \<and> fst (like_comment carol 7 2 (snd (like_comment carol 7 1 like_example_db)))
       = Inr \<lparr>lr_likes = 2, lr_isLiked = False\<rparr>
   \<and> likes_of 7 (snd (like_comment carol 7 2 (snd (like_comment carol 7 1 like_example_db)))) = [1, 2]
   \<and> fst (like_comment alice 7 1 like_example_db) = Inr \<lparr>lr_likes = 1, lr_isLiked = False\<rparr>
   \<and> set (likes_of 7 (snd (like_comment alice 7 2 (snd (like_comment alice 7 1 like_example_db)))))
       = {1, 2}"
proof -
  have h: "findCommentById 7 like_example_db = Some like_example_comment"
    by (simp add: findCommentById_def like_example_db_def like_example_comment_def)
  have l: "likes like_example_comment = [1, 2]"
    by (simp add: like_example_comment_def)
  show ?thesis
    using h like_toggle[OF h, of carol 1 2 3] like_toggle[OF h, of alice 1 2 3]
    by (simp add: Let_def l alice_def carol_def insert_commute)
qed

subsection \<open>Deleting a comment\<close>

lemma find_filter_neq:
  "find (\<lambda>x. k x = j) (filter (\<lambda>x. k x \<noteq> i) xs) = (if j = i then None else find (\<lambda>x. k x = j) xs)"
  by (induction xs) auto

lemma findCommentById_remove:
  "findCommentById j (removeComment c d) =
     (if j = comment_id c then None else findCommentById j d)"
  by (simp add: findCommentById_def removeComment_def find_filter_neq)

lemma findCommentById_pull:
  "findCommentById j (pullReply p r now d) =
     map_option (\<lambda>x. if p = j then x\<lparr>replies := filter (\<lambda>y. y \<noteq> r) (replies x),
                                      comment_updatedAt := now\<rparr> else x)
       (findCommentById j d)"
proof -
  let ?f = "\<lambda>x. if comment_id x = p
                 then x\<lparr>replies := filter (\<lambda>y. y \<noteq> r) (replies x), comment_updatedAt := now\<rparr>
                 else x"
  have m: "find (\<lambda>x. comment_id x = j) (map ?f (comments d))
          = map_option ?f (find (\<lambda>x. comment_id x = j) (comments d))"
    by (rule find_map_same_id) simp
  show ?thesis
  proof (cases "find (\<lambda>x. comment_id x = j) (comments d)")
    case None
    with m show ?thesis by (simp add: findCommentById_def pullReply_def)
  next
    case (Some x)
    then have "comment_id x = j" by (rule find_Some_id)
    with m Some show ?thesis by (auto simp add: findCommentById_def pullReply_def)
  qed
qed

lemma delete_comment_handler_find:
  "findCommentById j (snd (delete_comment_handler c now d)) =
     (if j = comment_id c then None
      else map_option
             (\<lambda>x. if parentComment c = Some j
                  then x\<lparr>replies := filter (\<lambda>y. y \<noteq> comment_id c) (replies x),
                         comment_updatedAt := now\<rparr>
                  else x)
             (findCommentById j d))"
proof (cases "parentComment c")
  case None
  then show ?thesis
    by (cases "findCommentById j d")
       (simp_all add: delete_comment_handler_def findCommentById_remove)
next
  case (Some p)
  then show ?thesis
    by (cases "findCommentById j d")
       (simp_all add: delete_comment_handler_def findCommentById_remove findCommentById_pull)
qed

lemma del1: "findCommentById (comment_id c) (snd (delete_comment_handler c now d)) = None"
  by (simp add: delete_comment_handler_find)

lemma del2:
  "j \<noteq> comment_id c \<Longrightarrow> findCommentById j d = Some x \<Longrightarrow>
   findCommentById j (snd (delete_comment_handler c now d)) =
     Some (if parentComment c = Some j
           then x\<lparr>replies := filter (\<lambda>y. y \<noteq> comment_id c) (replies x), comment_updatedAt := now\<rparr>
           else x)"
  by (simp add: delete_comment_handler_find)

lemma del3:
  "findCommentById j d = None \<Longrightarrow> findCommentById j (snd (delete_comment_handler c now d)) = None"
  by (simp add: delete_comment_handler_find)

lemma del4:
  "parentComment c = None \<Longrightarrow> j \<noteq> comment_id c \<Longrightarrow>
   findCommentById j (snd (delete_comment_handler c now d)) = findCommentById j d"
  by (cases "findCommentById j d") (simp_all add: delete_comment_handler_find)

lemma del5:
  "j \<noteq> comment_id c \<Longrightarrow> findCommentById j d = Some x \<Longrightarrow> parentComment x = Some (comment_id c) \<Longrightarrow>
   \<exists>x'. findCommentById j (snd (delete_comment_handler c now d)) = Some x'
      \<and> parentComment x' = Some (comment_id c) \<and> comment_text x' = comment_text x"
  by (simp add: del2)

text \<open>
  C5. Deleting the comment \<open>c\<close>: the comment is gone; every other stored comment is
  still stored, unchanged except that the one whose id is \<open>parentComment c\<close> has the id
  of \<open>c\<close> pulled from its \<open>replies\<close> (and its \<open>updatedAt\<close> set); nothing is
  created; when \<open>c\<close> is top-level every other comment is exactly as before; and every
  reply of \<open>c\<close> is still stored with \<open>parentComment\<close> pointing at the deleted id.
\<close>

theorem delete_comment_detaches:
  "findCommentById (comment_id c) (snd (delete_comment_handler c now d)) = None
    \<and> (\<forall>j x. j \<noteq> comment_id c \<and> findCommentById j d = Some x \<longrightarrow>
          findCommentById j (snd (delete_comment_handler c now d)) =
            Some (if parentComment c = Some j
                  then x\<lparr>replies := filter (\<lambda>y. y \<noteq> comment_id c) (replies x),
                         comment_updatedAt := now\<rparr>
                  else x))
    \<and> (\<forall>j. findCommentById j d = None \<longrightarrow>
          findCommentById j (snd (delete_comment_handler c now d)) = None)
    \<and> (parentComment c = None \<longrightarrow>
          (\<forall>j. j \<noteq> comment_id c \<longrightarrow>
             findCommentById j (snd (delete_comment_handler c now d)) = findCommentById j d))
    \<and> (\<forall>j x. j \<noteq> comment_id c \<and> findCommentById j d = Some x
              \<and> parentComment x = Some (comment_id c) \<longrightarrow>
          (\<exists>x'. findCommentById j (snd (delete_comment_handler c now d)) = Some x'
                \<and> parentComment x' = Some (comment_id c)
                \<and> comment_text x' = comment_text x))"
  using del1[of c now d] del2[of _ c d _ now] del3[of _ d c now] del4[of c _ now d]
    del5[of _ c d _ now]
  by blast

theorem delete_comment_detaches_witness:
  "findCommentById 2 thread_db = Some thread_reply
   \<and> findCommentById 2 (snd (delete_comment_handler thread_reply 9 thread_db)) = None
   \<and> map_option replies (findCommentById 1 (snd (delete_comment_handler thread_reply 9 thread_db)))
        = Some []
   \<and> map_option parentComment
        (findCommentById 3 (snd (delete_comment_handler thread_reply 9 thread_db))) = Some (Some 2)
   \<and> findCommentById 2 (snd (delete_comment_handler thread_top 9 thread_db)) = Some thread_reply
   \<and> findCommentById 3 (snd (delete_comment_handler thread_top 9 thread_db)) = Some thread_nested
   \<and> findCommentById 4 (snd (delete_comment_handler thread_top 9 thread_db)) = None"
proof -
  have f: "findCommentById 1 thread_db = Some thread_top"
    "findCommentById 2 thread_db = Some thread_reply"
    "findCommentById 3 thread_db = Some thread_nested"
    "findCommentById 4 thread_db = None"
    by (simp_all add: findCommentById_def thread_db_def thread_top_def thread_reply_def
        thread_nested_def)
  have i: "comment_id thread_top = 1" "comment_id thread_reply = 2" "comment_id thread_nested = 3"
    "parentComment thread_top = None" "parentComment thread_reply = Some 1"
    "parentComment thread_nested = Some 2" "replies thread_top = [2]"
    by (simp_all add: thread_top_def thread_reply_def thread_nested_def)
  show ?thesis
    using f i delete_comment_detaches[of thread_reply 9 thread_db]
      delete_comment_detaches[of thread_top 9 thread_db]
    by simp
qed

subsection \<open>The parent references form a forest\<close>

lemma find_Some_mem: "find P xs = Some x \<Longrightarrow> x \<in> set xs"
  by (induction xs) (auto split: if_splits)

lemma initial_ranked: "initial_comments d \<Longrightarrow> ranked d"
  by (simp add: initial_comments_def ranked_def)

lemma ranked_ancestor: "ancestor d i a \<Longrightarrow> ranked d \<Longrightarrow> a < i"
proof (induction rule: ancestor.induct)
  case (parent c p)
  then show ?case by (simp add: ranked_def)
next
  case (grand c p a)
  then have "p < comment_id c" by (simp add: ranked_def)
  with grand show ?case by simp
qed

text \<open>A step that keeps the counter and maps stored comments to comments with the same
  id and parent (or drops them) keeps the ranking.\<close>

lemma ranked_sub:
  assumes "ranked d" "next_oid d' = next_oid d"
    and "\<And>c'. c' \<in> set (comments d') \<Longrightarrow>
           \<exists>c \<in> set (comments d). comment_id c' = comment_id c \<and> parentComment c' = parentComment c"
  shows "ranked d'"
  unfolding ranked_def
proof
  fix c' assume "c' \<in> set (comments d')"
  then obtain c where "c \<in> set (comments d)" "comment_id c' = comment_id c"
    "parentComment c' = parentComment c" using assms(3) by blast
  with assms(1,2) show "comment_id c' < next_oid d' \<and> (\<forall>p. parentComment c' = Some p \<longrightarrow> p < comment_id c')"
    by (simp add: ranked_def)
qed

lemma ranked_saveComment:
  assumes "ranked d" "c \<in> set (comments d)" "comment_id c' = comment_id c"
    "parentComment c' = parentComment c"
  shows "ranked (saveComment c' d)"
proof (rule ranked_sub[OF assms(1)])
  show "next_oid (saveComment c' d) = next_oid d" by (simp add: saveComment_def)
next
  fix x assume "x \<in> set (comments (saveComment c' d))"
  then show "\<exists>c \<in> set (comments d). comment_id x = comment_id c \<and> parentComment x = parentComment c"
    using assms(2-4) by (auto simp: saveComment_def split: if_splits)
qed

lemma ranked_pullReply: "ranked d \<Longrightarrow> ranked (pullReply p r now d)"
  by (rule ranked_sub[of d]) (auto simp: pullReply_def split: if_splits)

lemma ranked_pushReply: "ranked d \<Longrightarrow> ranked (pushReply p r now d)"
  by (rule ranked_sub[of d]) (auto simp: pushReply_def split: if_splits)

lemma ranked_removeComment: "ranked d \<Longrightarrow> ranked (removeComment c d)"
  by (rule ranked_sub[of d]) (auto simp: removeComment_def)

lemma findCommentById_mem: "findCommentById i d = Some c \<Longrightarrow> c \<in> set (comments d) \<and> comment_id c = i"
  unfolding findCommentById_def
  using find_Some_mem[of "\<lambda>c. comment_id c = i" "comments d" c]
    find_Some_id[of comment_id i "comments d" c] by simp

lemma ranked_like: "ranked d \<Longrightarrow> ranked (snd (like_comment pr cid now d))"
proof (cases "findCommentById cid d")
  case None
  assume "ranked d" with None show ?thesis by (simp add: like_comment_def)
next
  case (Some c)
  assume r: "ranked d"
  from Some have "c \<in> set (comments d)" by (simp add: findCommentById_mem)
  then show ?thesis
    using Some r by (simp add: like_comment_def Let_def ranked_saveComment)
qed

lemma ranked_approve: "ranked d \<Longrightarrow> ranked (snd (approve_comment pr cid b now d))"
proof (cases "findCommentById cid d")
  case None
  assume "ranked d" with None show ?thesis
    by (simp add: approve_comment_def approve_comment_handler_def split: sum.splits)
next
  case (Some c)
  assume r: "ranked d"
  from Some have "c \<in> set (comments d)" by (simp add: findCommentById_mem)
  then show ?thesis
    using Some r
    by (simp add: approve_comment_def approve_comment_handler_def Let_def ranked_saveComment
        split: sum.splits)
qed

lemma isAuthor_comment_mem:
  "isAuthor findCommentById comment_author pr cid d = Inr c \<Longrightarrow> c \<in> set (comments d) \<and> comment_id c = cid"
  by (auto simp: isAuthor_def findCommentById_mem split: option.splits if_splits)

lemma ranked_update: "ranked d \<Longrightarrow> ranked (snd (update_comment pr cid txt now d))"
proof (cases "isAuthor findCommentById comment_author pr cid d")
  case (Inl e)
  assume "ranked d" with Inl show ?thesis by (simp add: update_comment_def)
next
  case (Inr c)
  assume r: "ranked d"
  from Inr have "c \<in> set (comments d)" by (simp add: isAuthor_comment_mem)
  then show ?thesis
    using Inr r
    by (simp add: update_comment_def update_comment_handler_def Let_def ranked_saveComment)
qed

lemma ranked_delete: "ranked d \<Longrightarrow> ranked (snd (delete_comment pr cid now d))"
  by (cases "isAuthor findCommentById comment_author pr cid d")
     (auto simp: delete_comment_def delete_comment_handler_def Let_def ranked_removeComment
        ranked_pullReply split: option.splits)

lemma ranked_append:
  assumes "ranked d" "comment_id c = next_oid d"
    "\<And>p. parentComment c = Some p \<Longrightarrow> p < next_oid d"
  shows "ranked (d\<lparr>comments := comments d @ [c], next_oid := Suc (next_oid d)\<rparr>)"
  using assms by (auto simp: ranked_def less_Suc_eq)

lemma ranked_create: "ranked d \<Longrightarrow> ranked (snd (create_comment pr body now d))"
proof -
  assume r: "ranked d"
  have lt: "p < next_oid d" if "findCommentById p d = Some x" for p x
    using that r findCommentById_mem[of p d x] by (auto simp: ranked_def)
  show ?thesis
    using r lt
    by (auto simp: create_comment_def Let_def split: option.splits
        intro!: ranked_pushReply ranked_append)
qed

lemma ranked_step: "ranked d \<Longrightarrow> ranked (comment_step r d)"
  by (cases r) (simp_all add: ranked_create ranked_update ranked_delete ranked_like ranked_approve)

lemma ranked_run: "ranked d \<Longrightarrow> ranked (comment_run rs d)"
  by (induction rs arbitrary: d) (simp_all add: ranked_step)

lemma findCommentById_saveComment:
  "findCommentById j (saveComment c' d) =
     (case findCommentById j d of
        None \<Rightarrow> None
      | Some x \<Rightarrow> if j = comment_id c' then Some c' else Some x)"
proof -
  let ?f = "\<lambda>x. if comment_id x = comment_id c' then c' else x"
  have m: "find (\<lambda>x. comment_id x = j) (map ?f (comments d))
          = map_option ?f (find (\<lambda>x. comment_id x = j) (comments d))"
    by (rule find_map_same_id) simp
  show ?thesis
  proof (cases "find (\<lambda>x. comment_id x = j) (comments d)")
    case None
    with m show ?thesis by (simp add: findCommentById_def saveComment_def)
  next
    case (Some x)
    then have "comment_id x = j" by (rule find_Some_id)
    with m Some show ?thesis by (auto simp add: findCommentById_def saveComment_def)
  qed
qed

lemma findCommentById_push:
  "findCommentById j (pushReply p r now d) =
     map_option (\<lambda>x. if p = j then x\<lparr>replies := replies x @ [r], comment_updatedAt := now\<rparr> else x)
       (findCommentById j d)"
proof -
  let ?f = "\<lambda>x. if comment_id x = p
                 then x\<lparr>replies := replies x @ [r], comment_updatedAt := now\<rparr>
                 else x"
  have m: "find (\<lambda>x. comment_id x = j) (map ?f (comments d))
          = map_option ?f (find (\<lambda>x. comment_id x = j) (comments d))"
    by (rule find_map_same_id) simp
  show ?thesis
  proof (cases "find (\<lambda>x. comment_id x = j) (comments d)")
    case None
    with m show ?thesis by (simp add: findCommentById_def pushReply_def)
  next
    case (Some x)
    then have "comment_id x = j" by (rule find_Some_id)
    with m Some show ?thesis by (auto simp add: findCommentById_def pushReply_def)
  qed
qed

lemma find_append_one:
  "find P (xs @ [c]) = (case find P xs of Some x \<Rightarrow> Some x | None \<Rightarrow> if P c then Some c else None)"
  by (induction xs) auto

lemma findCommentById_insert:
  "findCommentById j (d\<lparr>comments := comments d @ [c], next_oid := n\<rparr>) =
     (case findCommentById j d of
        Some x \<Rightarrow> Some x
      | None \<Rightarrow> if comment_id c = j then Some c else None)"
  by (simp add: findCommentById_def find_append_one)

lemma isAuthor_comment_found:
  "isAuthor findCommentById comment_author pr cid d = Inr c \<Longrightarrow> findCommentById cid d = Some c"
  by (auto simp: isAuthor_def split: option.splits if_splits)

text \<open>What each operation does to the comment stored under an id.\<close>

lemma create_comment_find:
  "findCommentById j (snd (create_comment pr body now d)) = Some x' \<Longrightarrow>
     (\<exists>x. findCommentById j d = Some x \<and> parentComment x' = parentComment x)
   \<or> (findCommentById j d = None \<and> parentComment x' = b_parentComment body
       \<and> (\<forall>p. parentComment x' = Some p \<longrightarrow> (\<exists>y. findCommentById p d = Some y)))"
  by (auto simp: create_comment_def Let_def findCommentById_insert findCommentById_push
      split: option.splits if_splits)

lemma saveComment_find_derived:
  assumes "findCommentById cid d = Some c" "comment_id c' = comment_id c"
    "parentComment c' = parentComment c" "findCommentById j (saveComment c' d) = Some x'"
  shows "\<exists>x. findCommentById j d = Some x \<and> parentComment x' = parentComment x"
proof -
  have cid: "comment_id c = cid"
    using assms(1) by (simp add: findCommentById_mem)
  show ?thesis
  proof (cases "j = cid")
    case True
    with assms cid show ?thesis by (simp add: findCommentById_saveComment)
  next
    case False
    with assms cid show ?thesis
      by (cases "findCommentById j d") (simp_all add: findCommentById_saveComment)
  qed
qed

lemma update_comment_find:
  "findCommentById j (snd (update_comment pr cid tx now d)) = Some x' \<Longrightarrow>
     \<exists>x. findCommentById j d = Some x \<and> parentComment x' = parentComment x"
proof (cases "isAuthor findCommentById comment_author pr cid d")
  case (Inl e)
  assume "findCommentById j (snd (update_comment pr cid tx now d)) = Some x'"
  with Inl show ?thesis by (simp add: update_comment_def)
next
  case (Inr c)
  assume a: "findCommentById j (snd (update_comment pr cid tx now d)) = Some x'"
  from Inr have f: "findCommentById cid d = Some c" by (rule isAuthor_comment_found)
  show ?thesis
  proof (cases "length (trim tx) < 1 \<or> 1000 < length (trim tx)")
    case True
    with a Inr show ?thesis by (simp add: update_comment_def update_comment_handler_def)
  next
    case False
    define c2 where "c2 = (if c\<lparr>comment_text := trim tx, isEdited := True\<rparr> = c then c
        else c\<lparr>comment_text := trim tx, isEdited := True, comment_updatedAt := now\<rparr>)"
    have s: "findCommentById j (saveComment c2 d) = Some x'"
      using a Inr False by (simp add: update_comment_def update_comment_handler_def Let_def c2_def)
    have i: "comment_id c2 = comment_id c" and p: "parentComment c2 = parentComment c"
      by (simp_all add: c2_def)
    show ?thesis by (rule saveComment_find_derived[OF f i p s])
  qed
qed

lemma delete_comment_find:
  "findCommentById j (snd (delete_comment pr cid now d)) = Some x' \<Longrightarrow>
     \<exists>x. findCommentById j d = Some x \<and> parentComment x' = parentComment x"
  by (cases "isAuthor findCommentById comment_author pr cid d")
     (auto simp: delete_comment_def delete_comment_handler_find split: if_splits)

lemma like_comment_find_any:
  "findCommentById j (snd (like_comment pr cid now d)) = Some x' \<Longrightarrow>
     \<exists>x. findCommentById j d = Some x \<and> parentComment x' = parentComment x"
proof (cases "findCommentById cid d")
  case None
  assume "findCommentById j (snd (like_comment pr cid now d)) = Some x'"
  with None show ?thesis by (simp add: like_comment_def)
next
  case (Some c)
  assume a: "findCommentById j (snd (like_comment pr cid now d)) = Some x'"
  define c2 where "c2 = c\<lparr>likes := (if uid pr \<in> set (likes c)
      then filter (\<lambda>i. i \<noteq> uid pr) (likes c) else likes c @ [uid pr]), comment_updatedAt := now\<rparr>"
  have s: "findCommentById j (saveComment c2 d) = Some x'"
    using a Some by (simp add: like_comment_def Let_def c2_def)
  have i: "comment_id c2 = comment_id c" and p: "parentComment c2 = parentComment c"
    by (simp_all add: c2_def)
  show ?thesis by (rule saveComment_find_derived[OF Some i p s])
qed

lemma approve_comment_find:
  "findCommentById j (snd (approve_comment pr cid b now d)) = Some x' \<Longrightarrow>
     \<exists>x. findCommentById j d = Some x \<and> parentComment x' = parentComment x"
proof (cases "authorize [RoleAdmin] pr")
  case (Inl e)
  assume "findCommentById j (snd (approve_comment pr cid b now d)) = Some x'"
  with Inl show ?thesis by (simp add: approve_comment_def)
next
  case (Inr u)
  assume a: "findCommentById j (snd (approve_comment pr cid b now d)) = Some x'"
  show ?thesis
  proof (cases "findCommentById cid d")
    case None
    with a Inr show ?thesis by (simp add: approve_comment_def approve_comment_handler_def)
  next
    case (Some c)
    define c2 where "c2 = (if c\<lparr>isApproved := b\<rparr> = c then c
        else c\<lparr>isApproved := b, comment_updatedAt := now\<rparr>)"
    have s: "findCommentById j (saveComment c2 d) = Some x'"
      using a Inr Some by (simp add: approve_comment_def approve_comment_handler_def Let_def c2_def)
    have i: "comment_id c2 = comment_id c" and p: "parentComment c2 = parentComment c"
      by (simp_all add: c2_def)
    show ?thesis by (rule saveComment_find_derived[OF Some i p s])
  qed
qed

lemma comment_step_find:
  "findCommentById j (comment_step r d) = Some x' \<Longrightarrow>
     (\<exists>x. findCommentById j d = Some x \<and> parentComment x' = parentComment x)
   \<or> (findCommentById j d = None
       \<and> (\<forall>p. parentComment x' = Some p \<longrightarrow> (\<exists>y. findCommentById p d = Some y)))"
proof (cases r)
  case (CreateComment pr body now)
  assume "findCommentById j (comment_step r d) = Some x'"
  with CreateComment show ?thesis
    using create_comment_find[of j pr body now d x'] by auto
next
  case (UpdateComment pr cid tx now)
  assume "findCommentById j (comment_step r d) = Some x'"
  with UpdateComment show ?thesis
    using update_comment_find[of j pr cid tx now d x'] by simp
next
  case (DeleteComment pr cid now)
  assume "findCommentById j (comment_step r d) = Some x'"
  with DeleteComment show ?thesis
    using delete_comment_find[of j pr cid now d x'] by simp
next
  case (LikeComment pr cid now)
  assume "findCommentById j (comment_step r d) = Some x'"
  with LikeComment show ?thesis
    using like_comment_find_any[of j pr cid now d x'] by simp
next
  case (ApproveComment pr cid b now)
  assume "findCommentById j (comment_step r d) = Some x'"
  with ApproveComment show ?thesis
    using approve_comment_find[of j pr cid b now d x'] by simp
qed

text \<open>
  C7. From a state whose comments are all top-level, after any sequence of comment
  operations (create, update, delete, like-toggle, approve) no comment is its own
  ancestor; no operation changes the \<open>parentComment\<close> of a comment that stays stored;
  and a comment that an operation adds has \<open>parentComment\<close> null or the id of a comment
  that was stored before the operation.
\<close>

theorem parent_forest:
  assumes "initial_comments d0"
  shows "\<not> ancestor (comment_run rs d0) i i
       \<and> (\<forall>r j x x'. findCommentById j (comment_run rs d0) = Some x
              \<and> findCommentById j (comment_step r (comment_run rs d0)) = Some x'
              \<longrightarrow> parentComment x' = parentComment x)
       \<and> (\<forall>r j x' p. findCommentById j (comment_run rs d0) = None
              \<and> findCommentById j (comment_step r (comment_run rs d0)) = Some x'
              \<and> parentComment x' = Some p
              \<longrightarrow> (\<exists>y. findCommentById p (comment_run rs d0) = Some y))"
proof (intro conjI allI impI)
  have "ranked (comment_run rs d0)"
    using assms by (simp add: initial_ranked ranked_run)
  then show "\<not> ancestor (comment_run rs d0) i i"
    using ranked_ancestor[of "comment_run rs d0" i i] by auto
next
  fix r j x x'
  assume "findCommentById j (comment_run rs d0) = Some x
              \<and> findCommentById j (comment_step r (comment_run rs d0)) = Some x'"
  then show "parentComment x' = parentComment x"
    using comment_step_find[of j r "comment_run rs d0" x'] by auto
next
  fix r j x' p
  assume "findCommentById j (comment_run rs d0) = None
              \<and> findCommentById j (comment_step r (comment_run rs d0)) = Some x'
              \<and> parentComment x' = Some p"
  then show "\<exists>y. findCommentById p (comment_run rs d0) = Some y"
    using comment_step_find[of j r "comment_run rs d0" x'] by auto
qed

theorem parent_forest_witness:
  "initial_comments fresh_db
   \<and> \<not> ancestor (comment_run thread_requests fresh_db) 2 2
   \<and> findCommentById 1 (comment_run thread_requests fresh_db) = None
   \<and> findCommentById 3 (comment_run thread_requests fresh_db) = None
   \<and> map_option parentComment
        (findCommentById 3 (comment_step nested_request (comment_run thread_requests fresh_db)))
        = Some (Some 2)
   \<and> map_option comment_text (findCommentById 2 (comment_run thread_requests fresh_db))
        = Some ''edited reply''
   \<and> map_option parentComment (findCommentById 2 (comment_run thread_requests fresh_db))
        = Some (Some 1)
   \<and> map_option parentComment
        (findCommentById 2 (comment_step nested_request (comment_run thread_requests fresh_db)))
        = Some (Some 1)"
proof -
  have h: "initial_comments fresh_db"
    by (simp add: initial_comments_def fresh_db_def)
  have e: "comment_run thread_requests fresh_db =
      \<lparr>posts = [example_post],
       comments = [\<lparr>comment_id = 2, comment_text = ''edited reply'', comment_post = 0,
                    comment_author = 5, parentComment = Some 1, replies = [], likes = [1],
                    isApproved = True, isEdited = True, comment_createdAt = 2,
                    comment_updatedAt = 4\<rparr>],
       categories = [], users = [], next_oid = 3\<rparr>"
    by (simp add: thread_requests_def fresh_db_def create_comment_def trim_def is_space_def
        findPostById_def findCommentById_def example_post_def pushReply_def alice_def carol_def
        like_comment_def saveComment_def update_comment_def update_comment_handler_def
        isAuthor_def delete_comment_def delete_comment_handler_def removeComment_def
        pullReply_def Let_def)
  show ?thesis
    using h parent_forest[OF h, of thread_requests 2]
    by (simp add: e nested_request_def create_comment_def trim_def is_space_def
        findPostById_def findCommentById_def example_post_def pushReply_def alice_def Let_def)
qed

subsection \<open>Category slug\<close>

lemma toLowerCase_char_not_upper: "\<not> is_upper (toLowerCase_char c)"
proof (cases "is_upper c")
  case True
  then have "(of_char c :: nat) + 32 < 256" by (simp add: is_upper_def)
  then have "(of_char (char_of ((of_char c :: nat) + 32)) :: nat) = of_char c + 32"
    by simp
  with True show ?thesis by (simp add: toLowerCase_char_def is_upper_def)
next
  case False
  then show ?thesis by (simp add: toLowerCase_char_def)
qed

lemma az09_alnum: "\<not> is_upper c \<Longrightarrow> in_az09 c = is_alphanumeric c"
  by (simp add: in_az09_def is_alphanumeric_def)

lemma replace_prefix_in:
  "\<forall>c \<in> set ys. in_az09 c \<Longrightarrow> replace_non_az09 (ys @ zs) = ys @ replace_non_az09 zs"
  by (induction ys) auto

lemma replace_runs:
  "\<forall>c \<in> set s. \<not> is_upper c \<Longrightarrow>
   replace_non_az09 s = concat (map collapse_run (maximal_runs is_alphanumeric s))"
proof (induction is_alphanumeric s rule: maximal_runs.induct)
  case 1
  then show ?case by simp
next
  case (2 x xs)
  have nu: "\<forall>c \<in> set (dropWhile (\<lambda>y. is_alphanumeric y = is_alphanumeric x) xs). \<not> is_upper c"
    using 2(2) by (auto dest: set_dropWhileD)
  note IH = 2(1)[OF nu]
  have eq: "in_az09 c = is_alphanumeric c" if "c \<in> set (x # xs)" for c
    using that 2(2) az09_alnum by auto
  show ?case
  proof (cases "is_alphanumeric x")
    case True
    have split: "xs = takeWhile is_alphanumeric xs @ dropWhile is_alphanumeric xs" by simp
    have pre: "\<forall>c \<in> set (takeWhile is_alphanumeric xs). in_az09 c"
      using eq by (auto dest: set_takeWhileD)
    have "replace_non_az09 xs =
        takeWhile is_alphanumeric xs @ replace_non_az09 (dropWhile is_alphanumeric xs)"
      using replace_prefix_in[OF pre, of "dropWhile is_alphanumeric xs"] by simp
    with True IH eq show ?thesis
      by (simp add: collapse_run_def)
  next
    case False
    have "dropWhile (\<lambda>c. \<not> in_az09 c) xs = dropWhile (\<lambda>c. \<not> is_alphanumeric c) xs"
      by (rule dropWhile_cong) (use eq in auto)
    with False IH eq show ?thesis
      by (simp add: collapse_run_def)
  qed
qed


lemma hyphen_not_az09: "\<not> in_az09 CHR ''-''"
  by (simp add: in_az09_def is_lower_def is_digit_def)

lemma hyphen_not_upper: "\<not> is_upper CHR ''-''"
  by (simp add: is_upper_def)

lemma az09_not_upper: "in_az09 c \<Longrightarrow> \<not> is_upper c"
  by (auto simp: in_az09_def is_lower_def is_digit_def is_upper_def)

lemma replace_chars: "c \<in> set (replace_non_az09 s) \<Longrightarrow> c = CHR ''-'' \<or> in_az09 c"
  by (induction s arbitrary: c rule: replace_non_az09.induct) (auto split: if_splits)

lemma replace_head_after_run:
  "replace_non_az09 (dropWhile (\<lambda>x. \<not> in_az09 x) cs) = c # r \<Longrightarrow> in_az09 c"
proof (cases "dropWhile (\<lambda>x. \<not> in_az09 x) cs")
  case Nil
  assume a: "replace_non_az09 (dropWhile (\<lambda>x. \<not> in_az09 x) cs) = c # r"
  from a[unfolded Nil] show ?thesis by simp
next
  case (Cons y ys)
  assume a: "replace_non_az09 (dropWhile (\<lambda>x. \<not> in_az09 x) cs) = c # r"
  from Cons have "in_az09 y" using hd_dropWhile[of "\<lambda>x. \<not> in_az09 x" cs] by auto
  with a[unfolded Cons] show ?thesis by simp
qed

lemma replace_second:
  "replace_non_az09 s = CHR ''-'' # c # r \<Longrightarrow> in_az09 c"
proof (cases s)
  case Nil
  assume "replace_non_az09 s = CHR ''-'' # c # r"
  with Nil show ?thesis by simp
next
  case (Cons x xs)
  assume a: "replace_non_az09 s = CHR ''-'' # c # r"
  with Cons have nx: "\<not> in_az09 x" using hyphen_not_az09 by (auto split: if_splits)
  with a Cons have "replace_non_az09 (dropWhile (\<lambda>x. \<not> in_az09 x) xs) = c # r" by simp
  then show ?thesis by (rule replace_head_after_run)
qed

lemma replace_before_last:
  "replace_non_az09 s = b @ [CHR ''-''] \<Longrightarrow> b \<noteq> [] \<Longrightarrow> in_az09 (last b)"
proof (induction s arbitrary: b rule: replace_non_az09.induct)
  case 1
  then show ?case by simp
next
  case (2 c cs)
  from 2(4) obtain b0 b' where b: "b = b0 # b'" by (cases b) auto
  show ?case
  proof (cases "in_az09 c")
    case True
    with 2(3) b have r: "replace_non_az09 cs = b' @ [CHR ''-'']" and c: "b0 = c" by auto
    show ?thesis
    proof (cases "b' = []")
      case True
      with b c \<open>in_az09 c\<close> show ?thesis by simp
    next
      case False
      with 2(1)[OF \<open>in_az09 c\<close> r] b show ?thesis by simp
    qed
  next
    case False
    with 2(3) b have r: "replace_non_az09 (dropWhile (\<lambda>x. \<not> in_az09 x) cs) = b' @ [CHR ''-'']"
      by auto
    show ?thesis
    proof (cases b')
      case Nil
      with r have "in_az09 CHR ''-''" using replace_head_after_run[of cs "CHR ''-''" "[]"] by simp
      with hyphen_not_az09 show ?thesis by simp
    next
      case (Cons y ys)
      with 2(2)[OF False r] b show ?thesis by simp
    qed
  qed
qed

lemma strip_back:
  assumes "\<And>b. s = b @ [CHR ''-''] \<Longrightarrow> b \<noteq> [] \<Longrightarrow> last b \<noteq> CHR ''-''"
  shows "rev (dropWhile (\<lambda>c. c = CHR ''-'') (rev s)) =
         (if s \<noteq> [] \<and> last s = CHR ''-'' then butlast s else s)"
proof (cases s rule: rev_cases)
  case Nil
  then show ?thesis by simp
next
  case (snoc b x)
  show ?thesis
  proof (cases "x = CHR ''-''")
    case False
    with snoc show ?thesis by simp
  next
    case True
    show ?thesis
    proof (cases b rule: rev_cases)
      case Nil
      with snoc True show ?thesis by simp
    next
      case (snoc b' y)
      with assms[of b] \<open>s = b @ [x]\<close> True have "y \<noteq> CHR ''-''" by simp
      with snoc \<open>s = b @ [x]\<close> True show ?thesis by (simp add: butlast_append)
    qed
  qed
qed

lemma edge_hyphens_strip:
  "replace_edge_hyphens (replace_non_az09 s) = strip_hyphens (replace_non_az09 s)"
proof -
  define h where "h = replace_non_az09 s"
  define s1 where "s1 = (case h of [] \<Rightarrow> [] | c # r \<Rightarrow> if c = CHR ''-'' then r else h)"
  have front: "dropWhile (\<lambda>c. c = CHR ''-'') h = s1"
  proof (cases h)
    case Nil
    then show ?thesis by (simp add: s1_def)
  next
    case (Cons c r)
    show ?thesis
    proof (cases "c = CHR ''-''")
      case False
      with Cons show ?thesis by (simp add: s1_def)
    next
      case True
      have "dropWhile (\<lambda>c. c = CHR ''-'') r = r"
      proof (cases r)
        case Nil
        then show ?thesis by simp
      next
        case (Cons c2 r2)
        with \<open>h = c # r\<close> True have "in_az09 c2"
          using replace_second[of s c2 r2] by (simp add: h_def)
        with hyphen_not_az09 have "c2 \<noteq> CHR ''-''" by auto
        with Cons show ?thesis by simp
      qed
      with Cons True show ?thesis by (simp add: s1_def)
    qed
  qed
  have bk: "last b \<noteq> CHR ''-''" if "s1 = b @ [CHR ''-'']" "b \<noteq> []" for b
  proof -
    have "\<exists>p. h = p @ b @ [CHR ''-'']"
    proof (cases h)
      case Nil
      with that show ?thesis by (simp add: s1_def)
    next
      case (Cons c r)
      with that show ?thesis
        by (cases "c = CHR ''-''") (auto simp: s1_def intro: exI[of _ "[c]"] exI[of _ "[]"])
    qed
    then obtain p where "h = (p @ b) @ [CHR ''-'']" by auto
    then have "in_az09 (last (p @ b))"
      using replace_before_last[of s "p @ b"] that(2) by (simp add: h_def)
    with that(2) hyphen_not_az09 show ?thesis by auto
  qed
  have "rev (dropWhile (\<lambda>c. c = CHR ''-'') (rev s1)) =
         (if s1 \<noteq> [] \<and> last s1 = CHR ''-'' then butlast s1 else s1)"
    by (rule strip_back) (use bk in blast)
  then show ?thesis
    unfolding replace_edge_hyphens_def strip_hyphens_def Let_def front[unfolded h_def]
      s1_def[unfolded h_def, symmetric] h_def[symmetric]
    by (simp add: front s1_def)
qed

lemma slugify_chars: "c \<in> set (slugify name) \<Longrightarrow> c = CHR ''-'' \<or> in_az09 c"
proof -
  assume a: "c \<in> set (slugify name)"
  define h where "h = replace_non_az09 (toLowerCase name)"
  have "set (replace_edge_hyphens h) \<subseteq> set h"
    by (cases h) (auto simp: replace_edge_hyphens_def Let_def dest: in_set_butlastD)
  with a have "c \<in> set h" by (auto simp: slugify_def h_def)
  then show ?thesis unfolding h_def by (rule replace_chars)
qed

lemma toLowerCase_slugify: "toLowerCase (slugify name) = slugify name"
proof -
  have "toLowerCase_char c = c" if "c \<in> set (slugify name)" for c
    using slugify_chars[OF that] hyphen_not_upper az09_not_upper
    by (auto simp: toLowerCase_char_def)
  then show ?thesis
    unfolding toLowerCase_def by (simp add: map_idI)
qed

lemma slugify_spec: "slugify name = spec_slug name"
proof -
  have "\<forall>c \<in> set (toLowerCase name). \<not> is_upper c"
    by (auto simp: toLowerCase_def toLowerCase_char_not_upper)
  then have "replace_non_az09 (toLowerCase name) =
      concat (map collapse_run (maximal_runs is_alphanumeric (toLowerCase name)))"
    by (rule replace_runs)
  then show ?thesis
    using edge_hyphens_strip[of "toLowerCase name"]
    by (simp add: slugify_def spec_slug_def)
qed

text \<open>
  C9. On save, the slug of a category is the name lower-cased, with every maximal run of
  non-alphanumeric characters collapsed to one hyphen and leading and trailing hyphens
  stripped (\<open>spec_slug\<close>); it is recomputed exactly when the document is new or its name
  differs from the stored one, and left as it is otherwise; a new category named
  "Tech Notes!!" gets the slug "tech-notes".
\<close>

theorem category_slug:
  "slug (save_category stored c) =
     (if stored = None \<or> (\<exists>old. stored = Some old \<and> category_name old \<noteq> category_name c)
      then Some (spec_slug (category_name c)) else slug c)
   \<and> category_pre_save True c = c\<lparr>slug := Some (spec_slug (category_name c))\<rparr>
   \<and> category_pre_save False c = c
   \<and> slug (save_category None (c\<lparr>category_name := ''Tech Notes!!''\<rparr>)) = Some ''tech-notes''"
proof -
  have e: "slugify ''Tech Notes!!'' = ''tech-notes''"
    by code_simp
  have l: "toLowerCase ''tech-notes'' = ''tech-notes''"
    by code_simp
  show ?thesis
    using e l
    by (cases stored)
       (simp_all add: save_category_def category_pre_save_def isModified_name_def
          toLowerCase_slugify slugify_spec[symmetric])
qed

theorem category_slug_witness:
  "slug (save_category (Some tech_category) (tech_category\<lparr>category_name := ''Tech Notes!!''\<rparr>))
     = Some ''tech-notes''
   \<and> slug (save_category (Some tech_category) (tech_category\<lparr>description := Some ''Notes''\<rparr>))
     = Some ''technology''
   \<and> slug (save_category None tech_category) = Some ''technology''"
proof -
  have s: "spec_slug ''Tech Notes!!'' = ''tech-notes''" "spec_slug ''Technology'' = ''technology''"
    by code_simp+
  show ?thesis
    using s
      category_slug[of "Some tech_category" "tech_category\<lparr>category_name := ''Tech Notes!!''\<rparr>"]
      category_slug[of "Some tech_category" "tech_category\<lparr>description := Some ''Notes''\<rparr>"]
      category_slug[of None tech_category]
    by (simp add: tech_category_def)
qed

subsection \<open>Route dispatch\<close>

lemma toLowerCase_Nil_iff: "toLowerCase x = [] \<longleftrightarrow> x = []"
  by (simp add: toLowerCase_def)

lemma toLowerCase_trending: "toLowerCase ''trending'' \<noteq> []"
  by (simp add: toLowerCase_def)

lemma dispatch_get_single:
  "x \<noteq> [] \<Longrightarrow> dispatch posts_router GET [x] = Some (GetPost, [(''id'', x)])"
  by (simp add: posts_router_def)

lemma dispatch_trending_unreachable:
  "dispatch posts_router m path = Some (h, ps) \<Longrightarrow> h \<noteq> TrendingPosts"
proof (cases path)
  case Nil
  assume "dispatch posts_router m path = Some (h, ps)"
  with Nil show ?thesis
    by (cases m) (auto simp: posts_router_def split: if_splits)
next
  case (Cons x xs)
  assume a: "dispatch posts_router m path = Some (h, ps)"
  show ?thesis
  proof (cases xs)
    case Nil
    show ?thesis
    proof (cases "x = []")
      case True
      with a Cons Nil toLowerCase_trending show ?thesis
        by (cases m) (auto simp: posts_router_def toLowerCase_def split: if_splits)
    next
      case False
      with a Cons Nil show ?thesis
        by (cases m) (auto simp: posts_router_def split: if_splits)
    qed
  next
    case (Cons y ys)
    with a \<open>path = x # xs\<close> show ?thesis
      by (cases m; cases ys) (auto simp: posts_router_def split: if_splits option.splits)
  qed
qed

text \<open>
  C3. A GET request for the single segment \<open>trending\<close> is dispatched to the
  single-post handler with \<open>id = trending\<close>, because \<open>/:id\<close> is registered before
  \<open>/trending\<close>; no request at all is dispatched to the trending handler, although its
  own pattern does match that path.
\<close>

theorem trending_route_shadowed:
  "dispatch posts_router GET [''trending''] = Some (GetPost, [(''id'', ''trending'')])
   \<and> (\<forall>m path ps. dispatch posts_router m path \<noteq> Some (TrendingPosts, ps))
   \<and> match_path [Lit ''trending''] [''trending''] = Some []"
proof (intro conjI allI)
  show "dispatch posts_router GET [''trending''] = Some (GetPost, [(''id'', ''trending'')])"
    by (simp add: posts_router_def)
next
  fix m path ps
  show "dispatch posts_router m path \<noteq> Some (TrendingPosts, ps)"
    using dispatch_trending_unreachable[of m path TrendingPosts ps] by blast
next
  show "match_path [Lit ''trending''] [''trending''] = Some []"
    by simp
qed

subsection \<open>Fetching a post by id\<close>






text \<open>
  C6, as stated, at a concrete input: the post was last updated at time 0 and is fetched at
  time 5. The stored post afterwards has \<open>viewCount = 1\<close> and also \<open>updatedAt = 5\<close>, so
  it is not the original post with only \<open>viewCount\<close> changed.
\<close>

theorem get_post_updatedAt_counterexample:
  "findPostById 0 fresh_db = Some example_post
   \<and> findPostById 0 (snd (get_post 0 5 fresh_db))
       = Some (example_post\<lparr>viewCount := 1, post_updatedAt := 5\<rparr>)
   \<and> example_post\<lparr>viewCount := 1, post_updatedAt := 5\<rparr> \<noteq> example_post\<lparr>viewCount := 1\<rparr>"
  by (simp add: fresh_db_def example_post_def get_post_def findPostById_def savePost_def
      populate_post_def Let_def)



subsection \<open>Updating a post\<close>

text \<open>
  C10. A PUT on a post by a principal who is neither its author nor an admin answers
  "forbidden" (403) and leaves the store unchanged; a PUT on a post that does not exist
  answers "not found" (404) and leaves the store unchanged.
\<close>

theorem put_post_guard:
  "(findPostById i d = None \<longrightarrow> update_post rx pr i body now d = (Inl NotFound, d))
   \<and> (\<forall>p. findPostById i d = Some p \<and> post_author p \<noteq> uid pr \<and> role pr \<noteq> RoleAdmin \<longrightarrow>
          update_post rx pr i body now d = (Inl Forbidden, d))
   \<and> status_code Forbidden = 403 \<and> status_code NotFound = 404"
  by (simp add: update_post_def isAuthor_def)

theorem put_post_guard_witness:
  "findPostById 0 blog_db = Some example_post
   \<and> post_author example_post \<noteq> uid carol \<and> role carol \<noteq> RoleAdmin
   \<and> update_post (\<lambda>pat s. True) carol 0
        \<lparr>pb_title = Some ''Hijacked title'', pb_content = None, pb_excerpt = None,
         pb_category = None, pb_tags = None, pb_featuredImage = None, pb_status = None\<rparr>
        9 blog_db = (Inl Forbidden, blog_db)
   \<and> findPostById 4 blog_db = None
   \<and> update_post (\<lambda>pat s. True) carol 4
        \<lparr>pb_title = Some ''Hijacked title'', pb_content = None, pb_excerpt = None,
         pb_category = None, pb_tags = None, pb_featuredImage = None, pb_status = None\<rparr>
        9 blog_db = (Inl NotFound, blog_db)"
proof -
  have h: "findPostById 0 blog_db = Some example_post" "findPostById 4 blog_db = None"
    by (simp_all add: findPostById_def blog_db_def example_post_def draft_post_def)
  have a: "post_author example_post \<noteq> uid carol" "role carol \<noteq> RoleAdmin"
    by (simp_all add: example_post_def carol_def)
  show ?thesis
    using h a
      put_post_guard[of 0 blog_db "\<lambda>pat s. True" carol
        "\<lparr>pb_title = Some ''Hijacked title'', pb_content = None, pb_excerpt = None,
         pb_category = None, pb_tags = None, pb_featuredImage = None, pb_status = None\<rparr>" 9]
      put_post_guard[of 4 blog_db "\<lambda>pat s. True" carol
        "\<lparr>pb_title = Some ''Hijacked title'', pb_content = None, pb_excerpt = None,
         pb_category = None, pb_tags = None, pb_featuredImage = None, pb_status = None\<rparr>" 9]
    by simp
qed

subsection \<open>Public read paths and the status of a post\<close>







text \<open>
  C1 at a concrete input: the store holds a draft with id 1; the public fetch by id
  answers with that post (status \<open>draft\<close>, view count incremented to 1), whereas the
  list and list-by-category handlers only ever answer published posts
  (\<open>list_posts_page_published\<close>, \<open>posts_by_category_page_published\<close>).
\<close>

theorem get_post_returns_draft:
  "findPostById 1 blog_db = Some draft_post \<and> status draft_post = Draft
   \<and> map_sum id (\<lambda>v. (post_id (pp_post v), status (pp_post v), viewCount (pp_post v)))
        (fst (get_post 1 5 blog_db)) = Inr (1, Draft, 1)"
  by (simp add: blog_db_def draft_post_def example_post_def get_post_def findPostById_def
      populate_post_def author_user_def tech_category_def Let_def)

subsection \<open>Trending posts\<close>

lemma trending_key_le:
  "trending_key a \<le> trending_key b \<longleftrightarrow> trending_before a b"
  by (auto simp: trending_key_def trending_before_def less_eq_prod_def)

text \<open>
  C2. The trending handler answers the first five entries of a ranking that consists of
  exactly the published posts, each with the number of comments that reference it, ordered
  by comment count descending and, among equal counts, by view count descending; it
  answers fewer than five only when there are fewer published posts.
\<close>

theorem trending_top5:
  "\<exists>ranking.
      trending_posts d = (Inr (take 5 ranking), d)
    \<and> mset ranking = mset (map (trending_lookup d) (filter (\<lambda>p. status p = Published) (posts d)))
    \<and> sorted_wrt trending_before ranking
    \<and> (\<forall>e \<in> set ranking.
          te_post e \<in> set (posts d) \<and> status (te_post e) = Published
        \<and> te_commentsCount e
            = length (filter (\<lambda>c. comment_post c = post_id (te_post e)) (comments d)))
    \<and> length (take 5 ranking) = min 5 (length (filter (\<lambda>p. status p = Published) (posts d)))"
proof -
  define pub where "pub = map (trending_lookup d) (filter (\<lambda>p. status p = Published) (posts d))"
  define ranking where "ranking = sort_key trending_key pub"
  have 1: "trending_posts d = (Inr (take 5 ranking), d)"
    by (simp add: trending_posts_def ranking_def pub_def)
  have 2: "mset ranking = mset pub"
    by (simp add: ranking_def)
  have "sorted (map trending_key ranking)"
    unfolding ranking_def by (rule sorted_sort_key)
  then have 3: "sorted_wrt trending_before ranking"
    by (simp add: sorted_map trending_key_le)
  have "set ranking = set pub"
    using 2 by (metis set_mset_mset)
  then have 4: "\<forall>e \<in> set ranking.
          te_post e \<in> set (posts d) \<and> status (te_post e) = Published
        \<and> te_commentsCount e
            = length (filter (\<lambda>c. comment_post c = post_id (te_post e)) (comments d))"
    by (auto simp: pub_def trending_lookup_def)
  have "length ranking = length pub"
    by (simp add: ranking_def)
  then have 5: "length (take 5 ranking) = min 5 (length (filter (\<lambda>p. status p = Published) (posts d)))"
    by (simp add: pub_def min.commute)
  show ?thesis
    using 1 2[unfolded pub_def] 3 4 5 by blast
qed

theorem trending_top5_witness:
  "map_sum id (map (\<lambda>e. (post_id (te_post e), te_commentsCount e, viewCount (te_post e))))
     (fst (trending_posts trending_db))
   = Inr [(13, 2, 2), (11, 1, 9), (10, 1, 4), (14, 0, 7), (16, 0, 3)]"
  using trending_top5[of trending_db]
  by (simp add: trending_posts_def trending_db_def mk_post_def mk_comment_def example_post_def
      like_example_comment_def trending_lookup_def trending_key_def less_eq_prod_def
      tech_category_def author_user_def)

subsection \<open>Pagination\<close>


























end
